theory Spec2Isabelle
  imports Complex_Main
begin

section \<open>Stake request reconciliation: \<open>StakeRequestHandler.persist\<close>\<close>

text \<open>
  The development embeds \<^verbatim>\<open>src/handlers/StakeRequestHandler.ts\<close> and the one function of
  \<^verbatim>\<open>src/common/Utils.ts\<close> it calls. The handler runs on three collaborators that are not
  part of the two files: the bignumber.js and web3-utils packages, and the repository
  behind \<^verbatim>\<open>StakeRequestRepository\<close>. The two packages are parameters of the model
  (record \<open>Libraries\<close>); the repository is modelled from its contract.
\<close>

subsection \<open>Errors\<close>

text \<open>
  Every way in which the promise returned by \<open>persist\<close> can reject: a thrown exception
  of one of the two packages, or a rejected promise of the repository.
\<close>

datatype error =
    NotANumber string
  | InvalidAddress string
  | StoreReadFailure string
  | StoreWriteFailure string

text \<open>Sequencing of steps that may throw: the first exception ends the computation.\<close>

definition andThen :: "error + 'a \<Rightarrow> ('a \<Rightarrow> error + 'b) \<Rightarrow> error + 'b" where
  "andThen r f = (case r of Inl e \<Rightarrow> Inl e | Inr v \<Rightarrow> f v)"

subsection \<open>Values of bignumber.js\<close>

text \<open>
  A \<open>BigNumber\<close> is not a number, an infinity, or a finite decimal of any size.
  \<open>comparedTo\<close> is the package's three-way comparison, which has no answer (\<open>null\<close>)
  when either side is not a number.
\<close>

datatype BigNumber = NaN | NegInfinity | Finite rat | Infinity

fun comparedTo :: "BigNumber \<Rightarrow> BigNumber \<Rightarrow> int option" where
  "comparedTo NaN y = None"
| "comparedTo x NaN = None"
| "comparedTo NegInfinity NegInfinity = Some 0"
| "comparedTo NegInfinity y = Some (- 1)"
| "comparedTo (Finite a) NegInfinity = Some 1"
| "comparedTo (Finite a) (Finite b) = Some (if a < b then - 1 else if a = b then 0 else 1)"
| "comparedTo (Finite a) Infinity = Some (- 1)"
| "comparedTo Infinity Infinity = Some 0"
| "comparedTo Infinity y = Some 1"

text \<open>
  \<open>x.gt(y)\<close> is \<open>compare(x, new BigNumber(y)) > 0\<close>. The argument at line 68 is
  \<open>stakeRequest.blockNumber!\<close>, a field that may be \<open>undefined\<close>: the non-null
  assertion is erased by the compiler, \<open>new BigNumber(undefined)\<close> is not a number, and
  the comparison is then false.
\<close>

definition gt :: "BigNumber \<Rightarrow> BigNumber option \<Rightarrow> bool" where
  "gt x y =
     (case comparedTo x (case y of None \<Rightarrow> NaN | Some v \<Rightarrow> v) of
        None \<Rightarrow> False
      | Some c \<Rightarrow> 0 < c)"

text \<open>\<open>x.gte(y)\<close>, used to state the case "the stored height is at least the new one".\<close>

definition gte :: "BigNumber \<Rightarrow> BigNumber \<Rightarrow> bool" where
  "gte x y = (case comparedTo x y of None \<Rightarrow> False | Some c \<Rightarrow> 0 \<le> c)"

subsection \<open>The two packages as parameters\<close>

text \<open>
  \<open>BigNumber_new s\<close> is \<open>new BigNumber(s)\<close> and \<open>Web3Utils_toChecksumAddress a\<close> is
  \<open>Web3Utils.toChecksumAddress(a)\<close>. Both may throw, so both return a sum.
\<close>

record Libraries =
  BigNumber_new :: "string \<Rightarrow> error + BigNumber"
  Web3Utils_toChecksumAddress :: "string \<Rightarrow> error + string"

text \<open>\<^verbatim>\<open>Utils.toChecksumAddress\<close> (Utils.ts, lines 27 to 29) hands its argument to web3-utils.\<close>

definition toChecksumAddress :: "Libraries \<Rightarrow> string \<Rightarrow> error + string" where
  "toChecksumAddress lib address = Web3Utils_toChecksumAddress lib address"

subsection \<open>Data\<close>

text \<open>
  The raw event handed to \<open>persist\<close>: every field is a string. The fields carry the
  names the handler reads, with the prefix \<open>tx_\<close>.
\<close>

record Transaction =
  tx_stakeRequestHash :: string
  tx_amount :: string
  tx_beneficiary :: string
  tx_gasPrice :: string
  tx_gasLimit :: string
  tx_nonce :: string
  tx_gateway :: string
  tx_staker :: string
  tx_stakerProxy :: string
  tx_blockNumber :: string

text \<open>
  Modelled from the spec: the entity class \<^verbatim>\<open>models/StakeRequest.ts\<close>, which is not among
  the source files. The fields are those of the data model; \<open>messageHash\<close> is optional,
  and \<open>blockNumber\<close> is optional as well, as the non-null assertion at line 68 of the
  handler shows.
\<close>

record StakeRequest =
  stakeRequestHash :: string
  amount :: BigNumber
  beneficiary :: string
  gasPrice :: BigNumber
  gasLimit :: BigNumber
  nonce :: BigNumber
  gateway :: string
  staker :: string
  stakerProxy :: string
  blockNumber :: "BigNumber option"
  messageHash :: "string option"

text \<open>
  The constructor call of lines 74 to 85: ten positional arguments, the message hash left
  out and hence absent.
\<close>

definition new_StakeRequest ::
  "string \<Rightarrow> BigNumber \<Rightarrow> string \<Rightarrow> BigNumber \<Rightarrow> BigNumber \<Rightarrow> BigNumber \<Rightarrow>
   string \<Rightarrow> string \<Rightarrow> string \<Rightarrow> BigNumber \<Rightarrow> StakeRequest" where
  "new_StakeRequest h a b gp gl n g s sp bn =
     \<lparr> stakeRequestHash = h, amount = a, beneficiary = b, gasPrice = gp, gasLimit = gl,
       nonce = n, gateway = g, staker = s, stakerProxy = sp,
       blockNumber = Some bn, messageHash = None \<rparr>"

subsection \<open>The record store\<close>

text \<open>
  Modelled from the spec: \<^verbatim>\<open>repositories/StakeRequestRepository.ts\<close>, which is not among the
  source files. \<open>get\<close> is a point lookup by request hash that yields a copy of the stored
  record or nothing; \<open>save\<close> is an upsert by request hash that yields the persisted
  value. Either may fail: \<open>getFails\<close> and \<open>saveFails\<close> say for which arguments.
  \<open>saveLog\<close> is the list of all arguments \<open>save\<close> was ever called with, oldest first,
  whether the call succeeded or not.
\<close>

record RecordStore =
  records :: "string \<rightharpoonup> StakeRequest"
  getFails :: "string \<Rightarrow> bool"
  saveFails :: "StakeRequest \<Rightarrow> bool"
  saveLog :: "StakeRequest list"

definition repo_get :: "RecordStore \<Rightarrow> string \<Rightarrow> error + StakeRequest option" where
  "repo_get st h = (if getFails st h then Inl (StoreReadFailure h) else Inr (records st h))"

definition repo_save :: "RecordStore \<Rightarrow> StakeRequest \<Rightarrow> (error + StakeRequest) \<times> RecordStore" where
  "repo_save st r =
     (if saveFails st r
      then (Inl (StoreWriteFailure (stakeRequestHash r)), st\<lparr>saveLog := saveLog st @ [r]\<rparr>)
      else (Inr r, st\<lparr>records := (records st)(stakeRequestHash r \<mapsto> r),
                       saveLog := saveLog st @ [r]\<rparr>))"

subsection \<open>The handler\<close>

text \<open>The constants of lines 56 to 65, in the order in which they are computed.\<close>

record Normalized =
  n_stakeRequestHash :: string
  n_amount :: BigNumber
  n_beneficiary :: string
  n_gasPrice :: BigNumber
  n_gasLimit :: BigNumber
  n_nonce :: BigNumber
  n_gateway :: string
  n_staker :: string
  n_stakerProxy :: string
  n_blockNumber :: BigNumber

definition normalizeFields :: "Libraries \<Rightarrow> Transaction \<Rightarrow> error + Normalized" where
  "normalizeFields lib transaction =
     andThen (BigNumber_new lib (tx_amount transaction)) (\<lambda>amount.
     andThen (toChecksumAddress lib (tx_beneficiary transaction)) (\<lambda>beneficiary.
     andThen (BigNumber_new lib (tx_gasPrice transaction)) (\<lambda>gasPrice.
     andThen (BigNumber_new lib (tx_gasLimit transaction)) (\<lambda>gasLimit.
     andThen (BigNumber_new lib (tx_nonce transaction)) (\<lambda>nonce.
     andThen (toChecksumAddress lib (tx_gateway transaction)) (\<lambda>gateway.
     andThen (toChecksumAddress lib (tx_staker transaction)) (\<lambda>staker.
     andThen (toChecksumAddress lib (tx_stakerProxy transaction)) (\<lambda>stakerProxy.
     andThen (BigNumber_new lib (tx_blockNumber transaction)) (\<lambda>blockNumber.
     Inr \<lparr> n_stakeRequestHash = tx_stakeRequestHash transaction,
           n_amount = amount, n_beneficiary = beneficiary, n_gasPrice = gasPrice,
           n_gasLimit = gasLimit, n_nonce = nonce, n_gateway = gateway,
           n_staker = staker, n_stakerProxy = stakerProxy,
           n_blockNumber = blockNumber \<rparr>)))))))))"

text \<open>
  Lines 68 to 86: what the callback returns once \<open>get\<close> has answered. A record that
  was found and is older than the event is kept, with the new height and no message
  hash; in every other case a new record is built from the constants.
\<close>

definition fresh :: "Normalized \<Rightarrow> StakeRequest" where
  "fresh n =
     new_StakeRequest (n_stakeRequestHash n) (n_amount n) (n_beneficiary n) (n_gasPrice n)
       (n_gasLimit n) (n_nonce n) (n_gateway n) (n_staker n) (n_stakerProxy n)
       (n_blockNumber n)"

definition decide :: "Normalized \<Rightarrow> StakeRequest option \<Rightarrow> StakeRequest" where
  "decide n found =
     (case found of
        None \<Rightarrow> fresh n
      | Some stakeRequest \<Rightarrow>
          if gt (n_blockNumber n) (blockNumber stakeRequest)
          then stakeRequest\<lparr>blockNumber := Some (n_blockNumber n), messageHash := None\<rparr>
          else fresh n)"

text \<open>The part of the callback after line 65: the lookup and the decision.\<close>

definition lookupAndDecide :: "RecordStore \<Rightarrow> Normalized \<Rightarrow> error + StakeRequest" where
  "lookupAndDecide st n =
     andThen (repo_get st (n_stakeRequestHash n)) (\<lambda>found. Inr (decide n found))"

text \<open>The callback of lines 55 to 87 on one event.\<close>

definition resolve :: "Libraries \<Rightarrow> RecordStore \<Rightarrow> Transaction \<Rightarrow> error + StakeRequest" where
  "resolve lib st transaction = andThen (normalizeFields lib transaction) (lookupAndDecide st)"

text \<open>
  \<open>Promise.all\<close> on promises that have settled: all the values in order, or an error.
  Of several errors the one with the lowest index is reported here; with real promises it
  is the one that settles first.
\<close>

fun promiseAll :: "(error + 'a) list \<Rightarrow> error + 'a list" where
  "promiseAll [] = Inr []"
| "promiseAll (p # ps) =
     (case p of
        Inl e \<Rightarrow> Inl e
      | Inr v \<Rightarrow> (case promiseAll ps of Inl e \<Rightarrow> Inl e | Inr vs \<Rightarrow> Inr (v # vs)))"

text \<open>
  Lines 54 to 88. \<open>map\<close> runs every callback up to its \<open>await\<close> before any lookup is
  answered, so an exception of lines 56 to 65 settles before any failure of the store
  does, and every lookup reads the store as it was when \<open>persist\<close> was called: no save
  is issued before line 93.
\<close>

definition resolveAll ::
  "Libraries \<Rightarrow> RecordStore \<Rightarrow> Transaction list \<Rightarrow> error + StakeRequest list" where
  "resolveAll lib st transactions =
     andThen (promiseAll (map (normalizeFields lib) transactions)) (\<lambda>ns.
       promiseAll (map (lookupAndDecide st) ns))"

text \<open>
  Lines 90 to 95: the loop calls \<open>save\<close> on every model in order, and only then awaits
  the promises. A failed save does not stop the others; the store is the one reached
  when all of them have settled.
\<close>

fun saveAll :: "RecordStore \<Rightarrow> StakeRequest list \<Rightarrow> (error + StakeRequest list) \<times> RecordStore" where
  "saveAll st [] = (Inr [], st)"
| "saveAll st (m # ms) =
     (case repo_save st m of (p, st1) \<Rightarrow>
        (case saveAll st1 ms of (ps, st2) \<Rightarrow>
           (case p of
              Inl e \<Rightarrow> Inl e
            | Inr v \<Rightarrow> (case ps of Inl e \<Rightarrow> Inl e | Inr vs \<Rightarrow> Inr (v # vs)), st2)))"

text \<open>
  \<open>persist\<close> (lines 52 to 99): the outcome of the call and the store it leaves behind.
  The result on success is \<open>models\<close>, not what the saves returned.
\<close>

definition persist ::
  "Libraries \<Rightarrow> RecordStore \<Rightarrow> Transaction list \<Rightarrow> (error + StakeRequest list) \<times> RecordStore" where
  "persist lib st transactions =
     (case resolveAll lib st transactions of
        Inl e \<Rightarrow> (Inl e, st)
      | Inr models \<Rightarrow>
          (case saveAll st models of
             (Inl e, st') \<Rightarrow> (Inl e, st')
           | (Inr saved, st') \<Rightarrow> (Inr models, st')))"

subsection \<open>The two packages with their default settings\<close>

text \<open>
  The closed examples below need the two packages at concrete arguments.

  \<open>defaultBigNumber\<close> is the constructor of bignumber.js as shipped, that is with
  \<open>BigNumber.DEBUG\<close> unset: it never throws, and a string that it cannot read gives
  the value that is not a number. The definition covers the unsigned decimal digit
  strings of the event shape, the two infinities, and takes every other string as
  unreadable. (The package also reads signs, fractions, exponents and base prefixes; the
  examples use none of these.)
\<close>

definition digitValue :: "char \<Rightarrow> nat option" where
  "digitValue c =
     (let k = (of_char c :: nat) in if 48 \<le> k \<and> k \<le> 57 then Some (k - 48) else None)"

fun decimalDigits :: "nat \<Rightarrow> string \<Rightarrow> nat option" where
  "decimalDigits acc [] = Some acc"
| "decimalDigits acc (c # cs) =
     (case digitValue c of None \<Rightarrow> None | Some d \<Rightarrow> decimalDigits (10 * acc + d) cs)"

definition defaultBigNumber :: "string \<Rightarrow> error + BigNumber" where
  "defaultBigNumber s =
     Inr (if s = ''Infinity'' then Infinity
          else if s = ''-Infinity'' then NegInfinity
          else if s = [] then NaN
          else (case decimalDigits 0 s of None \<Rightarrow> NaN | Some k \<Rightarrow> Finite (of_nat k)))"

text \<open>
  \<open>web3Checksum sha3\<close> is \<open>toChecksumAddress\<close> of web3-utils: it throws unless the
  argument is forty hexadecimal digits after an optional \<open>0x\<close>, and otherwise returns
  \<open>0x\<close> and the digits in lower case, a letter being raised to upper case where the
  digit of the hash at the same position exceeds seven. The hash function (Keccak-256,
  printed in hexadecimal) is the parameter \<open>sha3\<close>.
\<close>

definition hexValue :: "char \<Rightarrow> nat option" where
  "hexValue c =
     (let k = (of_char c :: nat) in
      if 48 \<le> k \<and> k \<le> 57 then Some (k - 48)
      else if 97 \<le> k \<and> k \<le> 102 then Some (k - 87)
      else if 65 \<le> k \<and> k \<le> 70 then Some (k - 55)
      else None)"

definition isHexDigit :: "char \<Rightarrow> bool" where
  "isHexDigit c = (case hexValue c of None \<Rightarrow> False | Some v \<Rightarrow> True)"

definition toLowerCase :: "string \<Rightarrow> string" where
  "toLowerCase s =
     map (\<lambda>c. let k = (of_char c :: nat) in if 65 \<le> k \<and> k \<le> 90 then char_of (k + 32) else c) s"

definition toUpperCase :: "char \<Rightarrow> char" where
  "toUpperCase c =
     (let k = (of_char c :: nat) in if 97 \<le> k \<and> k \<le> 122 then char_of (k - 32) else c)"

definition stripHexPrefix :: "string \<Rightarrow> string" where
  "stripHexPrefix s =
     (case s of
        c0 # c1 # rest \<Rightarrow>
          if c0 = CHR ''0'' \<and> (c1 = CHR ''x'' \<or> c1 = CHR ''X'') then rest else s
      | _ \<Rightarrow> s)"

definition isAddressShape :: "string \<Rightarrow> bool" where
  "isAddressShape s = (length (stripHexPrefix s) = 40 \<and> list_all isHexDigit (stripHexPrefix s))"

fun checksumCase :: "string \<Rightarrow> string \<Rightarrow> string" where
  "checksumCase h [] = []"
| "checksumCase h (a # as) =
     (if (case h of
            [] \<Rightarrow> False
          | d # ds \<Rightarrow> (case hexValue d of None \<Rightarrow> False | Some v \<Rightarrow> 7 < v))
      then toUpperCase a else a) # checksumCase (tl h) as"

definition web3Checksum :: "(string \<Rightarrow> string) \<Rightarrow> string \<Rightarrow> error + string" where
  "web3Checksum sha3 address =
     (if \<not> isAddressShape address then Inl (InvalidAddress address)
      else (let a = stripHexPrefix (toLowerCase address);
                h = stripHexPrefix (sha3 a)
            in Inr (''0x'' @ checksumCase h a)))"

text \<open>
  Most examples use addresses without letters, on which the hash has no influence
  (lemma \<open>web3Checksum_digits\<close>); \<open>noHash\<close> stands in for it there. The example
  with a lettered address brings its own stand-in, \<open>eip55Hash\<close>.
\<close>

definition noHash :: "string \<Rightarrow> string" where
  "noHash a = ''0x''"

definition defaultLibraries :: Libraries where
  "defaultLibraries =
     \<lparr> BigNumber_new = defaultBigNumber, Web3Utils_toChecksumAddress = web3Checksum noHash \<rparr>"

subsection \<open>Example data\<close>

definition addrA :: string where
  "addrA = ''0x1000000000000000000000000000000000000001''"

definition addrB :: string where
  "addrB = ''0x2000000000000000000000000000000000000002''"

definition addrC :: string where
  "addrC = ''0x3000000000000000000000000000000000000003''"

definition addrD :: string where
  "addrD = ''0x4000000000000000000000000000000000000004''"

definition event :: "string \<Rightarrow> string \<Rightarrow> string \<Rightarrow> Transaction" where
  "event h a bn =
     \<lparr> tx_stakeRequestHash = h, tx_amount = a, tx_beneficiary = addrA, tx_gasPrice = ''2'',
       tx_gasLimit = ''3'', tx_nonce = ''4'', tx_gateway = addrB, tx_staker = addrC,
       tx_stakerProxy = addrD, tx_blockNumber = bn \<rparr>"

definition emptyStore :: RecordStore where
  "emptyStore =
     \<lparr> records = Map.empty, getFails = (\<lambda>h. False), saveFails = (\<lambda>r. False), saveLog = [] \<rparr>"

definition linked :: StakeRequest where
  "linked =
     \<lparr> stakeRequestHash = ''0xAA'', amount = Finite 10, beneficiary = addrD,
       gasPrice = Finite 7, gasLimit = Finite 8, nonce = Finite 9, gateway = addrC,
       staker = addrB, stakerProxy = addrA, blockNumber = Some (Finite 100),
       messageHash = Some ''0xMM'' \<rparr>"

definition storeWith :: "StakeRequest \<Rightarrow> RecordStore" where
  "storeWith r = emptyStore\<lparr>records := [stakeRequestHash r \<mapsto> r]\<rparr>"

definition rearmed :: StakeRequest where
  "rearmed = linked\<lparr>blockNumber := Some (Finite 105), messageHash := None\<rparr>"

definition firstSeen :: "string \<Rightarrow> BigNumber \<Rightarrow> BigNumber \<Rightarrow> StakeRequest" where
  "firstSeen h a bn =
     new_StakeRequest h a addrA (Finite 2) (Finite 3) (Finite 4) addrB addrC addrD bn"

definition reorgBatch :: "Transaction list" where
  "reorgBatch = [event ''0xAA'' ''99'' ''105'', event ''0xBB'' ''10'' ''100'']"

definition badGateway :: Transaction where
  "badGateway = (event ''0xAA'' ''10'' ''100'')\<lparr>tx_gateway := ''0x12''\<rparr>"

definition readFailure :: RecordStore where
  "readFailure = emptyStore\<lparr>getFails := (\<lambda>h. h = ''0xBB'')\<rparr>"

text \<open>
  An address with letters, for which the checksum is not the string itself: the test
  address of EIP-55, in lower case as an event may carry it, and its published checksum.
  \<open>eip55Hash\<close> stands in for Keccak-256 on this address: its digits exceed seven
  exactly under the letters that the published checksum writes in upper case, which is
  all that \<open>web3Checksum\<close> reads of the hash under a letter. On any other argument it
  is \<open>noHash\<close>.
\<close>

definition eip55Raw :: string where
  "eip55Raw = ''0x5aaeb6053f3e94c9b9a09f33669435e7ef1beaed''"

definition eip55Checksummed :: string where
  "eip55Checksummed = ''0x5aAeb6053F3E94C9b9A09f33669435E7Ef1BeAed''"

definition eip55Hash :: "string \<Rightarrow> string" where
  "eip55Hash a =
     (if a = ''5aaeb6053f3e94c9b9a09f33669435e7ef1beaed''
      then ''0x0080000008080080008000000000008080080800000000000000000000000000''
      else noHash a)"

definition eip55Libraries :: Libraries where
  "eip55Libraries =
     \<lparr> BigNumber_new = defaultBigNumber, Web3Utils_toChecksumAddress = web3Checksum eip55Hash \<rparr>"

definition lowerCaseEvent :: Transaction where
  "lowerCaseEvent = (event ''0xAA'' ''99'' ''100'')\<lparr>tx_beneficiary := eip55Raw\<rparr>"

definition checksummedRecord :: StakeRequest where
  "checksummedRecord =
     (firstSeen ''0xAA'' (Finite 99) (Finite 100))\<lparr>beneficiary := eip55Checksummed\<rparr>"

section \<open>Auxiliary facts\<close>

lemma andThen_Inr_iff: "andThen r f = Inr y \<longleftrightarrow> (\<exists>v. r = Inr v \<and> f v = Inr y)"
  by (cases r) (simp_all add: andThen_def)

lemma andThen_isl_iff: "isl (andThen r f) \<longleftrightarrow> isl r \<or> (\<exists>v. r = Inr v \<and> isl (f v))"
  by (cases r) (simp_all add: andThen_def)

lemma promiseAll_Inr_iff: "promiseAll ps = Inr vs \<longleftrightarrow> ps = map Inr vs"
proof (induction ps arbitrary: vs)
  case Nil
  show ?case by auto
next
  case (Cons p ps)
  show ?case
  proof (cases p)
    case (Inl e)
    then show ?thesis by (cases vs) auto
  next
    case (Inr v)
    show ?thesis
    proof (cases "promiseAll ps")
      case (Inl e)
      have "ps \<noteq> map Inr ws" for ws
        using Cons.IH[of ws] Inl by simp
      with Inl Inr show ?thesis by (cases vs) auto
    next
      case ok: (Inr ws)
      with Cons.IH[of ws] have ps: "ps = map Inr ws" by simp
      from ok Inr ps show ?thesis by (cases vs) auto
    qed
  qed
qed

lemma promiseAll_isl_iff: "isl (promiseAll ps) \<longleftrightarrow> (\<exists>p\<in>set ps. isl p)"
  by (induction ps) (auto split: sum.splits)

lemma resolve_Inr_iff:
  "resolve lib st tx = Inr m \<longleftrightarrow> (\<exists>n. normalizeFields lib tx = Inr n \<and> lookupAndDecide st n = Inr m)"
  by (simp add: resolve_def andThen_Inr_iff)

lemma resolveAll_Inr_iff:
  "resolveAll lib st txs = Inr ms \<longleftrightarrow> map (resolve lib st) txs = map Inr ms"
proof
  assume "resolveAll lib st txs = Inr ms"
  then obtain ns where ns: "map (normalizeFields lib) txs = map Inr ns"
    and ms: "map (lookupAndDecide st) ns = map Inr ms"
    by (auto simp: resolveAll_def andThen_Inr_iff promiseAll_Inr_iff)
  show "map (resolve lib st) txs = map Inr ms"
  proof (rule nth_equalityI)
    from ns ms show "length (map (resolve lib st) txs) = length (map Inr ms)"
      by (metis length_map)
  next
    fix i assume "i < length (map (resolve lib st) txs)"
    then have i: "i < length txs" by simp
    with ns have li: "i < length ns" by (metis length_map)
    from ns i li have "normalizeFields lib (txs ! i) = Inr (ns ! i)" by (metis nth_map)
    moreover from ms li have "lookupAndDecide st (ns ! i) = Inr (ms ! i)"
      by (metis length_map nth_map)
    ultimately have "resolve lib st (txs ! i) = Inr (ms ! i)"
      by (auto simp: resolve_Inr_iff)
    with i li ms show "map (resolve lib st) txs ! i = map Inr ms ! i"
      by (metis length_map nth_map)
  qed
next
  assume h: "map (resolve lib st) txs = map Inr ms"
  then show "resolveAll lib st txs = Inr ms"
  proof (induction txs arbitrary: ms)
    case Nil
    then show ?case by (simp add: resolveAll_def andThen_def)
  next
    case (Cons tx txs)
    then obtain m ms' where ms: "ms = m # ms'" and hd: "resolve lib st tx = Inr m"
      and tl: "map (resolve lib st) txs = map Inr ms'"
      by (cases ms) auto
    from Cons.IH[OF tl] obtain ns where ns: "promiseAll (map (normalizeFields lib) txs) = Inr ns"
      and ms': "promiseAll (map (lookupAndDecide st) ns) = Inr ms'"
      by (auto simp: resolveAll_def andThen_Inr_iff)
    from hd obtain n where n: "normalizeFields lib tx = Inr n" and l: "lookupAndDecide st n = Inr m"
      by (auto simp: resolve_Inr_iff)
    from ns ms' n l ms show ?case
      by (simp add: resolveAll_def andThen_def)
  qed
qed

lemma repo_save_faults:
  "saveFails (snd (repo_save st m)) = saveFails st"
  "getFails (snd (repo_save st m)) = getFails st"
  by (simp_all add: repo_save_def)

lemma snd_saveAll_Cons:
  "snd (saveAll st (m # ms)) = snd (saveAll (snd (repo_save st m)) ms)"
  by (simp split: prod.splits)

lemma fst_saveAll_Cons:
  "fst (saveAll st (m # ms)) =
     (case fst (repo_save st m) of
        Inl e \<Rightarrow> Inl e
      | Inr v \<Rightarrow> (case fst (saveAll (snd (repo_save st m)) ms) of
                    Inl e \<Rightarrow> Inl e
                  | Inr vs \<Rightarrow> Inr (v # vs)))"
  by (cases "repo_save st m"; cases "saveAll (snd (repo_save st m)) ms")
    (auto split: sum.splits)

declare saveAll.simps(2) [simp del]

lemma saveAll_saveFails: "saveFails (snd (saveAll st ms)) = saveFails st"
  by (induction ms arbitrary: st) (simp_all add: snd_saveAll_Cons repo_save_faults)

lemma saveAll_getFails: "getFails (snd (saveAll st ms)) = getFails st"
  by (induction ms arbitrary: st) (simp_all add: snd_saveAll_Cons repo_save_faults)

lemma saveAll_saveLog: "saveLog (snd (saveAll st ms)) = saveLog st @ ms"
  by (induction ms arbitrary: st) (simp_all add: snd_saveAll_Cons repo_save_def)

lemma saveAll_Inr_iff:
  "fst (saveAll st ms) = Inr vs \<longleftrightarrow> vs = ms \<and> (\<forall>m\<in>set ms. \<not> saveFails st m)"
proof (induction ms arbitrary: st vs)
  case Nil
  show ?case by auto
next
  case (Cons m ms)
  show ?case
  proof (cases "saveFails st m")
    case True
    then show ?thesis by (simp add: fst_saveAll_Cons repo_save_def)
  next
    case False
    then have s: "fst (repo_save st m) = Inr m" by (simp add: repo_save_def)
    show ?thesis
    proof (cases "fst (saveAll (snd (repo_save st m)) ms)")
      case (Inl e)
      with Cons.IH[of "snd (repo_save st m)" ms] have "\<exists>x\<in>set ms. saveFails st x"
        by (simp add: repo_save_faults)
      with Inl s show ?thesis by (auto simp: fst_saveAll_Cons)
    next
      case (Inr ws)
      with Cons.IH[of "snd (repo_save st m)" ws]
      have "ws = ms" and "\<forall>x\<in>set ms. \<not> saveFails st x"
        by (simp_all add: repo_save_faults)
      with Inr s False show ?thesis by (auto simp: fst_saveAll_Cons)
    qed
  qed
qed

lemma saveAll_isl_iff: "isl (fst (saveAll st ms)) \<longleftrightarrow> (\<exists>m\<in>set ms. saveFails st m)"
proof (cases "fst (saveAll st ms)")
  case (Inl e)
  with saveAll_Inr_iff[of st ms ms] show ?thesis by auto
next
  case (Inr vs)
  with saveAll_Inr_iff[of st ms vs] show ?thesis by auto
qed

lemma repo_save_records:
  "records (snd (repo_save st m)) =
     (if saveFails st m then records st else (records st)(stakeRequestHash m \<mapsto> m))"
  by (auto simp: repo_save_def fun_eq_iff)

lemma saveAll_records:
  "records (snd (saveAll st ms)) =
     foldl (\<lambda>f m. if saveFails st m then f else f(stakeRequestHash m \<mapsto> m)) (records st) ms"
proof (induction ms arbitrary: st)
  case Nil
  show ?case by simp
next
  case (Cons m ms)
  show ?case
    by (simp add: snd_saveAll_Cons Cons.IH repo_save_faults repo_save_records)
qed

lemma saveAll_records_ok:
  assumes "\<forall>m\<in>set ms. \<not> saveFails st m"
  shows "records (snd (saveAll st ms)) =
           foldl (\<lambda>f m. f(stakeRequestHash m \<mapsto> m)) (records st) ms"
proof -
  have "foldl (\<lambda>f m. if saveFails st m then f else f(stakeRequestHash m \<mapsto> m)) f0 ms =
        foldl (\<lambda>f m. f(stakeRequestHash m \<mapsto> m)) f0 ms" for f0
    using assms by (induction ms arbitrary: f0) simp_all
  then show ?thesis by (simp add: saveAll_records)
qed

lemma foldl_upsert_other:
  "\<forall>m\<in>set ms. stakeRequestHash m \<noteq> k \<Longrightarrow>
     foldl (\<lambda>f m. f(stakeRequestHash m \<mapsto> m)) f0 ms k = f0 k"
  by (induction ms arbitrary: f0) auto

lemma foldl_upsert_last:
  "i < length ms \<Longrightarrow>
   \<forall>j. i < j \<and> j < length ms \<longrightarrow> stakeRequestHash (ms ! j) \<noteq> stakeRequestHash (ms ! i) \<Longrightarrow>
     foldl (\<lambda>f m. f(stakeRequestHash m \<mapsto> m)) f0 ms (stakeRequestHash (ms ! i)) = Some (ms ! i)"
proof (induction ms arbitrary: f0 i)
  case Nil
  then show ?case by simp
next
  case (Cons m ms)
  show ?case
  proof (cases i)
    case 0
    have "\<forall>x\<in>set ms. stakeRequestHash x \<noteq> stakeRequestHash m"
    proof
      fix x assume "x \<in> set ms"
      then obtain j where j: "j < length ms" and x: "x = ms ! j"
        by (auto simp: in_set_conv_nth)
      from Cons.prems(2) 0 j have "stakeRequestHash ((m # ms) ! Suc j) \<noteq> stakeRequestHash m"
        by auto
      with x show "stakeRequestHash x \<noteq> stakeRequestHash m" by simp
    qed
    then have "foldl (\<lambda>f m. f(stakeRequestHash m \<mapsto> m)) (f0(stakeRequestHash m \<mapsto> m)) ms
                 (stakeRequestHash m) = (f0(stakeRequestHash m \<mapsto> m)) (stakeRequestHash m)"
      by (rule foldl_upsert_other)
    with 0 show ?thesis by (simp del: fun_upd_apply) simp
  next
    case (Suc k)
    with Cons.prems have k: "k < length ms" by simp
    have later: "\<forall>j. k < j \<and> j < length ms \<longrightarrow>
        stakeRequestHash (ms ! j) \<noteq> stakeRequestHash (ms ! k)"
    proof (intro allI impI)
      fix j assume "k < j \<and> j < length ms"
      with Cons.prems(2) Suc have
        "stakeRequestHash ((m # ms) ! Suc j) \<noteq> stakeRequestHash ((m # ms) ! Suc k)"
        by auto
      then show "stakeRequestHash (ms ! j) \<noteq> stakeRequestHash (ms ! k)" by simp
    qed
    from Cons.IH[OF k later] Suc show ?thesis by simp
  qed
qed

lemma all_Inr_iff:
  fixes ps :: "(error + 'a) list"
  shows "(\<exists>vs. ps = map Inr vs) \<longleftrightarrow> (\<forall>p\<in>set ps. \<not> isl p)"
proof -
  have "(\<exists>vs. ps = map Inr vs) \<longleftrightarrow> \<not> isl (promiseAll ps)"
    by (cases "promiseAll ps") (simp_all add: promiseAll_Inr_iff[symmetric])
  then show ?thesis by (simp add: promiseAll_isl_iff)
qed

lemma resolveAll_isl_iff:
  "isl (resolveAll lib st txs) \<longleftrightarrow> (\<exists>tx\<in>set txs. isl (resolve lib st tx))"
proof -
  have "\<not> isl (resolveAll lib st txs) \<longleftrightarrow> (\<exists>ms. map (resolve lib st) txs = map Inr ms)"
    by (cases "resolveAll lib st txs") (simp_all add: resolveAll_Inr_iff[symmetric])
  then show ?thesis using all_Inr_iff[of "map (resolve lib st) txs"] by auto
qed

lemma persist_rejected: "resolveAll lib st txs = Inl e \<Longrightarrow> persist lib st txs = (Inl e, st)"
  by (simp add: persist_def)

lemma persist_store:
  "resolveAll lib st txs = Inr ms \<Longrightarrow> snd (persist lib st txs) = snd (saveAll st ms)"
  by (cases "saveAll st ms") (auto simp: persist_def split: sum.splits)

lemma persist_result:
  "resolveAll lib st txs = Inr ms \<Longrightarrow>
     fst (persist lib st txs) =
       (case fst (saveAll st ms) of Inl e \<Rightarrow> Inl e | Inr saved \<Rightarrow> Inr ms)"
  by (cases "saveAll st ms") (auto simp: persist_def split: sum.splits)

lemma persist_Inr_iff:
  "fst (persist lib st txs) = Inr ms \<longleftrightarrow>
     resolveAll lib st txs = Inr ms \<and> (\<forall>m\<in>set ms. \<not> saveFails st m)"
proof (cases "resolveAll lib st txs")
  case (Inl e)
  then show ?thesis by (simp add: persist_rejected)
next
  case (Inr ms')
  show ?thesis
  proof (cases "fst (saveAll st ms')")
    case (Inl e)
    with saveAll_Inr_iff[of st ms' ms'] have "\<exists>m\<in>set ms'. saveFails st m" by auto
    with Inl Inr show ?thesis by (auto simp: persist_result)
  next
    case ok: (Inr saved)
    with saveAll_Inr_iff[of st ms' saved] have "\<forall>m\<in>set ms'. \<not> saveFails st m" by simp
    with ok Inr show ?thesis by (auto simp: persist_result)
  qed
qed

lemma normalize_fields:
  "normalizeFields lib tx = Inr n \<Longrightarrow>
     n_stakeRequestHash n = tx_stakeRequestHash tx \<and>
     BigNumber_new lib (tx_amount tx) = Inr (n_amount n) \<and>
     Web3Utils_toChecksumAddress lib (tx_beneficiary tx) = Inr (n_beneficiary n) \<and>
     BigNumber_new lib (tx_gasPrice tx) = Inr (n_gasPrice n) \<and>
     BigNumber_new lib (tx_gasLimit tx) = Inr (n_gasLimit n) \<and>
     BigNumber_new lib (tx_nonce tx) = Inr (n_nonce n) \<and>
     Web3Utils_toChecksumAddress lib (tx_gateway tx) = Inr (n_gateway n) \<and>
     Web3Utils_toChecksumAddress lib (tx_staker tx) = Inr (n_staker n) \<and>
     Web3Utils_toChecksumAddress lib (tx_stakerProxy tx) = Inr (n_stakerProxy n) \<and>
     BigNumber_new lib (tx_blockNumber tx) = Inr (n_blockNumber n)"
  by (auto simp: normalizeFields_def andThen_Inr_iff toChecksumAddress_def)

lemma normalize_isl_iff:
  "isl (normalizeFields lib tx) \<longleftrightarrow>
     isl (BigNumber_new lib (tx_amount tx)) \<or>
     isl (Web3Utils_toChecksumAddress lib (tx_beneficiary tx)) \<or>
     isl (BigNumber_new lib (tx_gasPrice tx)) \<or>
     isl (BigNumber_new lib (tx_gasLimit tx)) \<or>
     isl (BigNumber_new lib (tx_nonce tx)) \<or>
     isl (Web3Utils_toChecksumAddress lib (tx_gateway tx)) \<or>
     isl (Web3Utils_toChecksumAddress lib (tx_staker tx)) \<or>
     isl (Web3Utils_toChecksumAddress lib (tx_stakerProxy tx)) \<or>
     isl (BigNumber_new lib (tx_blockNumber tx))"
  by (simp add: normalizeFields_def andThen_def toChecksumAddress_def split: sum.splits)

lemma lookupAndDecide_Inr_iff:
  "lookupAndDecide st n = Inr m \<longleftrightarrow>
     \<not> getFails st (n_stakeRequestHash n) \<and> m = decide n (records st (n_stakeRequestHash n))"
  by (auto simp: lookupAndDecide_def repo_get_def andThen_def)

lemma persist_nth:
  assumes "fst (persist lib st txs) = Inr models" and "i < length txs"
  shows "length models = length txs \<and> resolve lib st (txs ! i) = Inr (models ! i)"
proof -
  from assms(1) have m: "map (resolve lib st) txs = map Inr models"
    by (simp add: persist_Inr_iff resolveAll_Inr_iff)
  then have len: "length models = length txs" by (metis length_map)
  from m assms(2) len have "resolve lib st (txs ! i) = Inr (models ! i)"
    by (metis nth_map)
  with len show ?thesis by simp
qed

lemma persist_saveLog:
  "resolveAll lib st txs = Inr models \<Longrightarrow>
     saveLog (snd (persist lib st txs)) = saveLog st @ models"
  by (simp add: persist_store saveAll_saveLog)

lemma gt_irrefl: "\<not> gt x (Some x)"
  by (cases x) (simp_all add: gt_def)

lemma gte_not_gt: "gte b b' \<Longrightarrow> \<not> gt b' (Some b)"
  by (cases b; cases b') (simp_all add: gt_def gte_def split: if_splits)

lemma default_numbers:
  "defaultBigNumber ''2'' = Inr (Finite 2)"
  "defaultBigNumber ''3'' = Inr (Finite 3)"
  "defaultBigNumber ''4'' = Inr (Finite 4)"
  "defaultBigNumber ''10'' = Inr (Finite 10)"
  "defaultBigNumber ''99'' = Inr (Finite 99)"
  "defaultBigNumber ''100'' = Inr (Finite 100)"
  "defaultBigNumber ''105'' = Inr (Finite 105)"
  "defaultBigNumber ''abc'' = Inr NaN"
  by (simp_all add: defaultBigNumber_def digitValue_def)

lemma default_addresses:
  "web3Checksum noHash addrA = Inr addrA"
  "web3Checksum noHash addrB = Inr addrB"
  "web3Checksum noHash addrC = Inr addrC"
  "web3Checksum noHash addrD = Inr addrD"
  by (simp_all add: web3Checksum_def noHash_def addrA_def addrB_def addrC_def addrD_def
      isAddressShape_def stripHexPrefix_def isHexDigit_def hexValue_def toLowerCase_def)

lemma toUpperCase_digit: "digitValue c \<noteq> None \<Longrightarrow> toUpperCase c = c"
  by (auto simp: digitValue_def toUpperCase_def Let_def split: if_splits)

lemma checksumCase_digits:
  "list_all (\<lambda>c. digitValue c \<noteq> None) a \<Longrightarrow> checksumCase h a = a"
  by (induction a arbitrary: h) (simp_all add: toUpperCase_digit)

lemma web3Checksum_digits:
  assumes "list_all (\<lambda>c. digitValue c \<noteq> None) (stripHexPrefix (toLowerCase address))"
  shows "web3Checksum sha3 address = web3Checksum noHash address"
  using assms by (simp add: web3Checksum_def Let_def checksumCase_digits)

lemma normalize_event:
  assumes "defaultBigNumber a = Inr va" and "defaultBigNumber bn = Inr vb"
  shows "normalizeFields defaultLibraries (event h a bn) =
           Inr \<lparr> n_stakeRequestHash = h, n_amount = va, n_beneficiary = addrA,
                 n_gasPrice = Finite 2, n_gasLimit = Finite 3, n_nonce = Finite 4,
                 n_gateway = addrB, n_staker = addrC, n_stakerProxy = addrD,
                 n_blockNumber = vb \<rparr>"
  using assms
  by (simp add: normalizeFields_def andThen_def toChecksumAddress_def defaultLibraries_def event_def
      default_numbers default_addresses)

lemma resolve_event:
  assumes "defaultBigNumber a = Inr va" and "defaultBigNumber bn = Inr vb"
    and "\<not> getFails st h"
  shows "resolve defaultLibraries st (event h a bn) =
           Inr (decide \<lparr> n_stakeRequestHash = h, n_amount = va, n_beneficiary = addrA,
                 n_gasPrice = Finite 2, n_gasLimit = Finite 3, n_nonce = Finite 4,
                 n_gateway = addrB, n_staker = addrC, n_stakerProxy = addrD,
                 n_blockNumber = vb \<rparr> (records st h))"
  using assms(3)
  by (simp add: resolve_def normalize_event[OF assms(1,2)] andThen_def lookupAndDecide_def
      repo_get_def)

lemma persist_single:
  assumes "resolve lib st tx = Inr m" and "\<not> saveFails st m"
  shows "persist lib st [tx] =
           (Inr [m], st\<lparr>records := (records st)(stakeRequestHash m \<mapsto> m),
                         saveLog := saveLog st @ [m]\<rparr>)"
proof -
  from assms(1) have "resolveAll lib st [tx] = Inr [m]" by (simp add: resolveAll_Inr_iff)
  with assms(2) show ?thesis by (simp add: persist_def saveAll.simps repo_save_def)
qed

lemma decide_messageHash: "messageHash (decide n found) = None"
  by (simp add: decide_def fresh_def new_StakeRequest_def split: option.splits)

lemma resolve_messageHash: "resolve lib st tx = Inr m \<Longrightarrow> messageHash m = None"
  by (auto simp: resolve_Inr_iff lookupAndDecide_Inr_iff decide_messageHash)

lemma resolveAll_messageHash:
  assumes "resolveAll lib st txs = Inr ms" and "m \<in> set ms"
  shows "messageHash m = None"
proof -
  from assms(1) have eq: "map (resolve lib st) txs = map Inr ms"
    by (simp add: resolveAll_Inr_iff)
  from assms(2) have "Inr m \<in> set (map (resolve lib st) txs)"
    unfolding eq by simp
  then obtain tx where "resolve lib st tx = Inr m" by auto
  then show ?thesis by (rule resolve_messageHash)
qed

lemma decide_fresh:
  assumes "found = None \<or> (\<exists>r. found = Some r \<and> \<not> gt (n_blockNumber n) (blockNumber r))"
  shows "decide n found = fresh n"
  using assms by (auto simp: decide_def)

lemma resolve_event_fresh:
  assumes "defaultBigNumber a = Inr va" and "defaultBigNumber bn = Inr vb"
    and "\<not> getFails st h"
    and "records st h = None \<or> (\<exists>r. records st h = Some r \<and> \<not> gt vb (blockNumber r))"
  shows "resolve defaultLibraries st (event h a bn) = Inr (firstSeen h va vb)"
  using assms(4)
  by (simp add: resolve_event[OF assms(1,2,3)] decide_fresh)
     (simp add: fresh_def firstSeen_def)

lemma resolve_event_rearmed:
  "resolve defaultLibraries (storeWith linked) (event ''0xAA'' ''99'' ''105'') = Inr rearmed"
  by (simp add: resolve_event[OF default_numbers(5) default_numbers(7)] storeWith_def
        emptyStore_def linked_def decide_def gt_def rearmed_def)

lemma persist_ok:
  assumes "map (resolve lib st) txs = map Inr ms" and "\<forall>m\<in>set ms. \<not> saveFails st m"
  shows "fst (persist lib st txs) = Inr ms"
    and "saveLog (snd (persist lib st txs)) = saveLog st @ ms"
    and "records (snd (persist lib st txs)) =
           foldl (\<lambda>f m. f(stakeRequestHash m \<mapsto> m)) (records st) ms"
proof -
  from assms(1) have r: "resolveAll lib st txs = Inr ms" by (simp add: resolveAll_Inr_iff)
  with assms(2) show "fst (persist lib st txs) = Inr ms" by (simp add: persist_Inr_iff)
  from r show "saveLog (snd (persist lib st txs)) = saveLog st @ ms" by (rule persist_saveLog)
  from r assms(2) show "records (snd (persist lib st txs)) =
           foldl (\<lambda>f m. f(stakeRequestHash m \<mapsto> m)) (records st) ms"
    by (simp add: persist_store saveAll_records_ok)
qed

lemma resolve_reorgBatch:
  "map (resolve defaultLibraries (storeWith linked)) reorgBatch =
     map Inr [rearmed, firstSeen ''0xBB'' (Finite 10) (Finite 100)]"
proof -
  have "resolve defaultLibraries (storeWith linked) (event ''0xBB'' ''10'' ''100'') =
          Inr (firstSeen ''0xBB'' (Finite 10) (Finite 100))"
    by (rule resolve_event_fresh[OF default_numbers(4) default_numbers(6)])
       (simp_all add: storeWith_def emptyStore_def linked_def)
  then show ?thesis by (simp add: reorgBatch_def resolve_event_rearmed)
qed

lemma storeWith_faults:
  "saveFails (storeWith r) m = False" "getFails (storeWith r) h = False"
  "saveLog (storeWith r) = []" "records (storeWith r) = [stakeRequestHash r \<mapsto> r]"
  by (simp_all add: storeWith_def emptyStore_def)

lemma persist_reorgBatch:
  "fst (persist defaultLibraries (storeWith linked) reorgBatch) =
     Inr [rearmed, firstSeen ''0xBB'' (Finite 10) (Finite 100)]"
  "saveLog (snd (persist defaultLibraries (storeWith linked) reorgBatch)) =
     [rearmed, firstSeen ''0xBB'' (Finite 10) (Finite 100)]"
  using persist_ok(1,2)[OF resolve_reorgBatch] by (simp_all add: storeWith_faults)

lemma event_fields:
  "tx_stakeRequestHash (event h a bn) = h" "tx_amount (event h a bn) = a"
  "tx_blockNumber (event h a bn) = bn" "tx_beneficiary (event h a bn) = addrA"
  "tx_gateway (event h a bn) = addrB" "tx_staker (event h a bn) = addrC"
  "tx_stakerProxy (event h a bn) = addrD" "tx_gasPrice (event h a bn) = ''2''"
  "tx_gasLimit (event h a bn) = ''3''" "tx_nonce (event h a bn) = ''4''"
  by (simp_all add: event_def)

lemma default_new: "BigNumber_new defaultLibraries = defaultBigNumber"
  by (simp add: defaultLibraries_def)

lemma resolve_same_height:
  "resolve defaultLibraries (storeWith linked) (event ''0xAA'' ''99'' ''100'') =
     Inr (firstSeen ''0xAA'' (Finite 99) (Finite 100))"
  by (rule resolve_event_fresh[OF default_numbers(5) default_numbers(6)])
     (simp_all add: storeWith_faults, simp add: linked_def gt_def)

lemma persist_same_height:
  "fst (persist defaultLibraries (storeWith linked) [event ''0xAA'' ''99'' ''100'']) =
     Inr [firstSeen ''0xAA'' (Finite 99) (Finite 100)]"
  by (simp add: persist_single resolve_same_height storeWith_faults)

lemma resolve_isl_iff:
  "isl (resolve lib st tx) \<longleftrightarrow>
     isl (normalizeFields lib tx) \<or>
     (\<exists>n. normalizeFields lib tx = Inr n \<and> getFails st (n_stakeRequestHash n))"
  by (cases "normalizeFields lib tx")
     (simp_all add: resolve_def andThen_def lookupAndDecide_def repo_get_def)

lemma persist_single_store:
  assumes "resolve lib st tx = Inr m"
  shows "records (snd (persist lib st [tx])) =
           (if saveFails st m then records st else (records st)(stakeRequestHash m \<mapsto> m))"
    and "getFails (snd (persist lib st [tx])) = getFails st"
    and "saveFails (snd (persist lib st [tx])) = saveFails st"
proof -
  from assms have "resolveAll lib st [tx] = Inr [m]" by (simp add: resolveAll_Inr_iff)
  then have s: "snd (persist lib st [tx]) = snd (saveAll st [m])" by (rule persist_store)
  show "records (snd (persist lib st [tx])) =
           (if saveFails st m then records st else (records st)(stakeRequestHash m \<mapsto> m))"
    by (simp add: s saveAll_records)
  show "getFails (snd (persist lib st [tx])) = getFails st" by (simp add: s saveAll_getFails)
  show "saveFails (snd (persist lib st [tx])) = saveFails st" by (simp add: s saveAll_saveFails)
qed

lemma gt_present:
  "gt x (Some b) = (case comparedTo x b of None \<Rightarrow> False | Some c \<Rightarrow> 0 < c)"
  by (simp add: gt_def)

lemma upper_case_letters:
  "char_of (65::nat) = CHR ''A''" "char_of (66::nat) = CHR ''B''"
  "char_of (67::nat) = CHR ''C''" "char_of (68::nat) = CHR ''D''"
  "char_of (69::nat) = CHR ''E''" "char_of (70::nat) = CHR ''F''"
  by code_simp+

lemma eip55_checksum: "web3Checksum eip55Hash eip55Raw = Inr eip55Checksummed"
  by (simp add: web3Checksum_def eip55Hash_def eip55Raw_def eip55Checksummed_def
      isAddressShape_def stripHexPrefix_def isHexDigit_def hexValue_def toLowerCase_def
      toUpperCase_def upper_case_letters)

lemma eip55_differs: "eip55Checksummed \<noteq> eip55Raw"
  by (simp add: eip55Checksummed_def eip55Raw_def)

lemma eip55_addresses:
  "web3Checksum eip55Hash addrB = Inr addrB"
  "web3Checksum eip55Hash addrC = Inr addrC"
  "web3Checksum eip55Hash addrD = Inr addrD"
  by (simp_all add: web3Checksum_def eip55Hash_def noHash_def addrB_def addrC_def addrD_def
      isAddressShape_def stripHexPrefix_def isHexDigit_def hexValue_def toLowerCase_def)

lemma normalize_lowerCaseEvent:
  "normalizeFields eip55Libraries lowerCaseEvent =
     Inr \<lparr> n_stakeRequestHash = ''0xAA'', n_amount = Finite 99,
           n_beneficiary = eip55Checksummed, n_gasPrice = Finite 2, n_gasLimit = Finite 3,
           n_nonce = Finite 4, n_gateway = addrB, n_staker = addrC, n_stakerProxy = addrD,
           n_blockNumber = Finite 100 \<rparr>"
  by (simp add: normalizeFields_def andThen_def toChecksumAddress_def eip55Libraries_def
      lowerCaseEvent_def event_def default_numbers eip55_checksum eip55_addresses)

lemma resolve_lowerCaseEvent:
  "resolve eip55Libraries (storeWith linked) lowerCaseEvent = Inr checksummedRecord"
proof -
  have "lookupAndDecide (storeWith linked)
          \<lparr> n_stakeRequestHash = ''0xAA'', n_amount = Finite 99,
            n_beneficiary = eip55Checksummed, n_gasPrice = Finite 2, n_gasLimit = Finite 3,
            n_nonce = Finite 4, n_gateway = addrB, n_staker = addrC, n_stakerProxy = addrD,
            n_blockNumber = Finite 100 \<rparr> = Inr checksummedRecord"
    by (simp add: lookupAndDecide_Inr_iff storeWith_faults linked_def decide_def gt_def
        fresh_def checksummedRecord_def firstSeen_def new_StakeRequest_def)
  then show ?thesis by (simp add: resolve_def normalize_lowerCaseEvent andThen_def)
qed

lemma persist_lowerCaseEvent:
  "fst (persist eip55Libraries (storeWith linked) [lowerCaseEvent]) = Inr [checksummedRecord]"
  by (simp add: persist_single resolve_lowerCaseEvent storeWith_faults)

section \<open>The claims\<close>

text \<open>
  Claim C1. Let \<open>persist\<close> succeed on a batch, and let the event at position \<open>i\<close> have a
  request hash under which the store holds a record \<open>r\<close> with block number \<open>b\<close>, while
  the block number parsed from the event, \<open>b'\<close>, is strictly greater than \<open>b\<close>. Then
  the record resolved for that event, which is also the one handed to \<open>save\<close> at
  position \<open>i\<close>, is \<open>r\<close> with its block number set to \<open>b'\<close> and its message hash
  absent. Request hash, amount, gas price, gas limit, nonce, beneficiary, gateway, staker
  and staker proxy are those of \<open>r\<close>, whatever the event carries.
\<close>

theorem persist_higher_block_keeps_record:
  assumes "fst (persist lib st txs) = Inr models"
    and "i < length txs"
    and "BigNumber_new lib (tx_blockNumber (txs ! i)) = Inr b'"
    and "records st (tx_stakeRequestHash (txs ! i)) = Some r"
    and "blockNumber r = Some b"
    and "gt b' (Some b)"
  shows "models ! i = r\<lparr>blockNumber := Some b', messageHash := None\<rparr> \<and>
         saveLog (snd (persist lib st txs)) ! (length (saveLog st) + i) = models ! i \<and>
         blockNumber (models ! i) = Some b' \<and>
         messageHash (models ! i) = None \<and>
         stakeRequestHash (models ! i) = stakeRequestHash r \<and>
         amount (models ! i) = amount r \<and>
         gasPrice (models ! i) = gasPrice r \<and>
         gasLimit (models ! i) = gasLimit r \<and>
         nonce (models ! i) = nonce r \<and>
         beneficiary (models ! i) = beneficiary r \<and>
         gateway (models ! i) = gateway r \<and>
         staker (models ! i) = staker r \<and>
         stakerProxy (models ! i) = stakerProxy r"
proof -
  from persist_nth[OF assms(1,2)]
  have len: "length models = length txs"
    and res: "resolve lib st (txs ! i) = Inr (models ! i)" by simp_all
  from res obtain n where n: "normalizeFields lib (txs ! i) = Inr n"
    and l: "lookupAndDecide st n = Inr (models ! i)"
    by (auto simp: resolve_Inr_iff)
  from normalize_fields[OF n] assms(3)
  have h: "n_stakeRequestHash n = tx_stakeRequestHash (txs ! i)" and b: "n_blockNumber n = b'"
    by simp_all
  from l h assms(4) have "models ! i = decide n (Some r)"
    by (simp add: lookupAndDecide_Inr_iff)
  with b assms(5,6) have m: "models ! i = r\<lparr>blockNumber := Some b', messageHash := None\<rparr>"
    by (simp add: decide_def)
  from assms(1) have "resolveAll lib st txs = Inr models" by (simp add: persist_Inr_iff)
  then have "saveLog (snd (persist lib st txs)) = saveLog st @ models" by (rule persist_saveLog)
  with assms(2) len have
    "saveLog (snd (persist lib st txs)) ! (length (saveLog st) + i) = models ! i"
    by simp
  with m show ?thesis by simp
qed

text \<open>
  An instance: the stored record has height 100, amount 10 and a message hash; the event
  has height 105 and amount 99. The amount stays 10.
\<close>

theorem persist_higher_block_keeps_record_witness:
  "fst (persist defaultLibraries (storeWith linked) [event ''0xAA'' ''99'' ''105'']) =
     Inr [linked\<lparr>blockNumber := Some (Finite 105), messageHash := None\<rparr>] \<and>
   BigNumber_new defaultLibraries (tx_blockNumber (event ''0xAA'' ''99'' ''105'')) =
     Inr (Finite 105) \<and>
   records (storeWith linked) (tx_stakeRequestHash (event ''0xAA'' ''99'' ''105'')) = Some linked \<and>
   blockNumber linked = Some (Finite 100) \<and>
   gt (Finite 105) (Some (Finite 100)) \<and>
   amount linked = Finite 10 \<and>
   BigNumber_new defaultLibraries (tx_amount (event ''0xAA'' ''99'' ''105'')) = Inr (Finite 99) \<and>
   amount ([linked\<lparr>blockNumber := Some (Finite 105), messageHash := None\<rparr>] ! 0) = amount linked \<and>
   saveLog (snd (persist defaultLibraries (storeWith linked) [event ''0xAA'' ''99'' ''105'']))
     ! (length (saveLog (storeWith linked)) + 0) =
     [linked\<lparr>blockNumber := Some (Finite 105), messageHash := None\<rparr>] ! 0"
proof -
  let ?tx = "event ''0xAA'' ''99'' ''105''"
  have "resolve defaultLibraries (storeWith linked) ?tx =
          Inr (linked\<lparr>blockNumber := Some (Finite 105), messageHash := None\<rparr>)"
    by (simp add: resolve_event[OF default_numbers(5) default_numbers(7)] storeWith_def
        emptyStore_def linked_def decide_def gt_def)
  then have h1: "fst (persist defaultLibraries (storeWith linked) [?tx]) =
      Inr [linked\<lparr>blockNumber := Some (Finite 105), messageHash := None\<rparr>]"
    by (simp add: persist_single storeWith_def emptyStore_def)
  have h2: "(0::nat) < length [?tx]" by simp
  have h3: "BigNumber_new defaultLibraries (tx_blockNumber ([?tx] ! 0)) = Inr (Finite 105)"
    by (simp add: defaultLibraries_def event_def default_numbers)
  have h4: "records (storeWith linked) (tx_stakeRequestHash ([?tx] ! 0)) = Some linked"
    by (simp add: storeWith_def emptyStore_def event_def linked_def)
  have h5: "blockNumber linked = Some (Finite 100)" by (simp add: linked_def)
  have h6: "gt (Finite 105) (Some (Finite 100))" by (simp add: gt_def)
  have h7: "amount linked = Finite 10" by (simp add: linked_def)
  have h8: "BigNumber_new defaultLibraries (tx_amount ?tx) = Inr (Finite 99)"
    by (simp add: defaultLibraries_def event_def default_numbers)
  from persist_higher_block_keeps_record[OF h1 h2 h3 h4 h5 h6] h1 h3 h4 h5 h6 h7 h8
  show ?thesis by simp
qed

text \<open>
  Claim C2. Let \<open>persist\<close> succeed on a batch, and let the event at position \<open>i\<close> have a
  request hash under which the store holds nothing, or holds a record whose block number
  is at least the block number \<open>b'\<close> parsed from the event. Then the record resolved
  for that event, which is also the one handed to \<open>save\<close> at position \<open>i\<close>, is built
  from the event alone: its hash is the event's, every number is what the constructor
  makes of the event's string, every address is the checksum that web3-utils returns for
  the event's string, and the message hash is absent. If no other record of the batch carries
  the same hash, this record is what the store holds under the hash afterwards, in place
  of whatever was there.
\<close>

theorem persist_replaces_record:
  assumes "fst (persist lib st txs) = Inr models"
    and "i < length txs"
    and "BigNumber_new lib (tx_blockNumber (txs ! i)) = Inr b'"
    and "records st (tx_stakeRequestHash (txs ! i)) = None \<or>
         (\<exists>r b. records st (tx_stakeRequestHash (txs ! i)) = Some r \<and>
                blockNumber r = Some b \<and> gte b b')"
  shows "stakeRequestHash (models ! i) = tx_stakeRequestHash (txs ! i) \<and>
         BigNumber_new lib (tx_amount (txs ! i)) = Inr (amount (models ! i)) \<and>
         Web3Utils_toChecksumAddress lib (tx_beneficiary (txs ! i)) = Inr (beneficiary (models ! i)) \<and>
         BigNumber_new lib (tx_gasPrice (txs ! i)) = Inr (gasPrice (models ! i)) \<and>
         BigNumber_new lib (tx_gasLimit (txs ! i)) = Inr (gasLimit (models ! i)) \<and>
         BigNumber_new lib (tx_nonce (txs ! i)) = Inr (nonce (models ! i)) \<and>
         Web3Utils_toChecksumAddress lib (tx_gateway (txs ! i)) = Inr (gateway (models ! i)) \<and>
         Web3Utils_toChecksumAddress lib (tx_staker (txs ! i)) = Inr (staker (models ! i)) \<and>
         Web3Utils_toChecksumAddress lib (tx_stakerProxy (txs ! i)) = Inr (stakerProxy (models ! i)) \<and>
         blockNumber (models ! i) = Some b' \<and>
         messageHash (models ! i) = None \<and>
         saveLog (snd (persist lib st txs)) ! (length (saveLog st) + i) = models ! i \<and>
         ((\<forall>j. j < length models \<and> j \<noteq> i \<longrightarrow>
              stakeRequestHash (models ! j) \<noteq> stakeRequestHash (models ! i)) \<longrightarrow>
          records (snd (persist lib st txs)) (tx_stakeRequestHash (txs ! i)) = Some (models ! i))"
proof -
  from persist_nth[OF assms(1,2)]
  have len: "length models = length txs"
    and res: "resolve lib st (txs ! i) = Inr (models ! i)" by simp_all
  from res obtain n where n: "normalizeFields lib (txs ! i) = Inr n"
    and l: "lookupAndDecide st n = Inr (models ! i)"
    by (auto simp: resolve_Inr_iff)
  note f = normalize_fields[OF n]
  from f assms(3) have b: "n_blockNumber n = b'" by simp
  from f have h: "n_stakeRequestHash n = tx_stakeRequestHash (txs ! i)" by simp
  from assms(4) b h have "records st (n_stakeRequestHash n) = None \<or>
      (\<exists>r. records st (n_stakeRequestHash n) = Some r \<and> \<not> gt (n_blockNumber n) (blockNumber r))"
    by (auto dest: gte_not_gt)
  then have "decide n (records st (n_stakeRequestHash n)) = fresh n" by (rule decide_fresh)
  with l have m: "models ! i = fresh n" by (simp add: lookupAndDecide_Inr_iff)
  from assms(1) have ok: "resolveAll lib st txs = Inr models" "\<forall>m\<in>set models. \<not> saveFails st m"
    by (simp_all add: persist_Inr_iff)
  from ok(1) have "saveLog (snd (persist lib st txs)) = saveLog st @ models"
    by (rule persist_saveLog)
  with assms(2) len have log:
    "saveLog (snd (persist lib st txs)) ! (length (saveLog st) + i) = models ! i"
    by simp
  have key: "stakeRequestHash (models ! i) = tx_stakeRequestHash (txs ! i)"
    using m h by (simp add: fresh_def new_StakeRequest_def)
  have stored: "records (snd (persist lib st txs)) (tx_stakeRequestHash (txs ! i)) = Some (models ! i)"
    if other: "\<forall>j. j < length models \<and> j \<noteq> i \<longrightarrow>
              stakeRequestHash (models ! j) \<noteq> stakeRequestHash (models ! i)"
  proof -
    from other have later: "\<forall>j. i < j \<and> j < length models \<longrightarrow>
              stakeRequestHash (models ! j) \<noteq> stakeRequestHash (models ! i)"
      by auto
    from ok have "records (snd (persist lib st txs)) =
        foldl (\<lambda>f m. f(stakeRequestHash m \<mapsto> m)) (records st) models"
      by (simp add: persist_store saveAll_records_ok)
    moreover from assms(2) len have "i < length models" by simp
    ultimately have "records (snd (persist lib st txs)) (stakeRequestHash (models ! i)) =
        Some (models ! i)"
      using later by (simp add: foldl_upsert_last)
    with key show ?thesis by simp
  qed
  from f m b have fields:
    "BigNumber_new lib (tx_amount (txs ! i)) = Inr (amount (models ! i))"
    "Web3Utils_toChecksumAddress lib (tx_beneficiary (txs ! i)) = Inr (beneficiary (models ! i))"
    "BigNumber_new lib (tx_gasPrice (txs ! i)) = Inr (gasPrice (models ! i))"
    "BigNumber_new lib (tx_gasLimit (txs ! i)) = Inr (gasLimit (models ! i))"
    "BigNumber_new lib (tx_nonce (txs ! i)) = Inr (nonce (models ! i))"
    "Web3Utils_toChecksumAddress lib (tx_gateway (txs ! i)) = Inr (gateway (models ! i))"
    "Web3Utils_toChecksumAddress lib (tx_staker (txs ! i)) = Inr (staker (models ! i))"
    "Web3Utils_toChecksumAddress lib (tx_stakerProxy (txs ! i)) = Inr (stakerProxy (models ! i))"
    "blockNumber (models ! i) = Some b'"
    "messageHash (models ! i) = None"
    by (simp_all add: fresh_def new_StakeRequest_def)
  from key fields log stored show ?thesis by blast
qed

text \<open>
  An instance: the stored record has height 100, amount 10 and a message hash; the event
  has height 100, amount 99 and a beneficiary in lower case. The stored record is
  replaced and its message hash lost, and the beneficiary of the new record is the
  checksum of the event's string, not the string.
\<close>

theorem persist_replaces_record_witness:
  "fst (persist eip55Libraries (storeWith linked) [lowerCaseEvent]) = Inr [checksummedRecord] \<and>
   records (storeWith linked) (tx_stakeRequestHash lowerCaseEvent) = Some linked \<and>
   blockNumber linked = Some (Finite 100) \<and>
   messageHash linked = Some ''0xMM'' \<and>
   amount linked = Finite 10 \<and>
   BigNumber_new eip55Libraries (tx_blockNumber lowerCaseEvent) = Inr (Finite 100) \<and>
   gte (Finite 100) (Finite 100) \<and>
   tx_beneficiary lowerCaseEvent = eip55Raw \<and>
   Web3Utils_toChecksumAddress eip55Libraries eip55Raw = Inr eip55Checksummed \<and>
   eip55Checksummed \<noteq> eip55Raw \<and>
   beneficiary checksummedRecord = eip55Checksummed \<and>
   beneficiary checksummedRecord \<noteq> tx_beneficiary lowerCaseEvent \<and>
   amount checksummedRecord = Finite 99 \<and>
   messageHash checksummedRecord = None \<and>
   records (snd (persist eip55Libraries (storeWith linked) [lowerCaseEvent])) ''0xAA'' =
     Some checksummedRecord"
proof -
  have h2: "(0::nat) < length [lowerCaseEvent]" by simp
  have bnew: "BigNumber_new eip55Libraries (tx_blockNumber lowerCaseEvent) = Inr (Finite 100)"
    by (simp add: eip55Libraries_def lowerCaseEvent_def event_def default_numbers)
  then have h3: "BigNumber_new eip55Libraries (tx_blockNumber ([lowerCaseEvent] ! 0)) =
      Inr (Finite 100)"
    by simp
  have key: "tx_stakeRequestHash lowerCaseEvent = ''0xAA''"
    by (simp add: lowerCaseEvent_def event_def)
  have st: "records (storeWith linked) (tx_stakeRequestHash lowerCaseEvent) = Some linked"
    by (simp add: key storeWith_faults linked_def)
  have bn: "blockNumber linked = Some (Finite 100)" by (simp add: linked_def)
  have ge: "gte (Finite 100) (Finite 100)" by (simp add: gte_def)
  from st bn ge have h4:
    "records (storeWith linked) (tx_stakeRequestHash ([lowerCaseEvent] ! 0)) = None \<or>
     (\<exists>r b. records (storeWith linked) (tx_stakeRequestHash ([lowerCaseEvent] ! 0)) = Some r \<and>
            blockNumber r = Some b \<and> gte b (Finite 100))"
    by simp
  have raw: "tx_beneficiary lowerCaseEvent = eip55Raw"
    by (simp add: lowerCaseEvent_def event_def)
  have lib: "Web3Utils_toChecksumAddress eip55Libraries eip55Raw = Inr eip55Checksummed"
    by (simp add: eip55Libraries_def eip55_checksum)
  have more: "messageHash linked = Some ''0xMM''" "amount linked = Finite 10"
    "amount checksummedRecord = Finite 99"
    by (simp_all add: linked_def checksummedRecord_def firstSeen_def new_StakeRequest_def)
  from persist_replaces_record[OF persist_lowerCaseEvent h2 h3 h4]
  have c: "Web3Utils_toChecksumAddress eip55Libraries (tx_beneficiary lowerCaseEvent) =
             Inr (beneficiary checksummedRecord)"
    and mh: "messageHash checksummedRecord = None"
    and rec: "records (snd (persist eip55Libraries (storeWith linked) [lowerCaseEvent]))
                (tx_stakeRequestHash lowerCaseEvent) = Some checksummedRecord"
    by auto
  from c raw lib have ben: "beneficiary checksummedRecord = eip55Checksummed" by simp
  with raw eip55_differs have "beneficiary checksummedRecord \<noteq> tx_beneficiary lowerCaseEvent"
    by simp
  with persist_lowerCaseEvent st bn ge bnew raw lib eip55_differs ben more mh rec key
  show ?thesis by simp
qed

text \<open>
  Claim C3, as the code has it. If for some event of the batch \<open>toChecksumAddress\<close>
  throws on one of the four address fields, or the constructor of \<open>BigNumber\<close> throws on
  one of the five numeric fields, then \<open>persist\<close> rejects and the store is left as it
  was: no save is issued for any record of the batch. (Whether a malformed numeric string
  makes the constructor throw is a matter of the package: as shipped it does not, see the
  counterexample.)
\<close>

theorem persist_rejects_when_normalization_throws:
  assumes "tx \<in> set txs"
    and "(\<exists>a\<in>{tx_beneficiary tx, tx_gateway tx, tx_staker tx, tx_stakerProxy tx}.
            isl (toChecksumAddress lib a)) \<or>
         (\<exists>s\<in>{tx_amount tx, tx_gasPrice tx, tx_gasLimit tx, tx_nonce tx, tx_blockNumber tx}.
            isl (BigNumber_new lib s))"
  shows "isl (fst (persist lib st txs)) \<and> snd (persist lib st txs) = st"
proof -
  from assms(2) have "isl (normalizeFields lib tx)"
    by (auto simp: normalize_isl_iff toChecksumAddress_def)
  then have "isl (resolve lib st tx)" by (simp add: resolve_isl_iff)
  with assms(1) have "isl (resolveAll lib st txs)" by (auto simp: resolveAll_isl_iff)
  then obtain e where "resolveAll lib st txs = Inl e" by (cases "resolveAll lib st txs") simp_all
  then show ?thesis by (simp add: persist_rejected)
qed

text \<open>
  An instance: the second event of the batch has the gateway \<open>0x12\<close>, which is no
  address. The call rejects, and the first event is not persisted either.
\<close>

theorem persist_rejects_when_normalization_throws_witness:
  "badGateway \<in> set [event ''0xBB'' ''10'' ''100'', badGateway] \<and>
   tx_gateway badGateway = ''0x12'' \<and>
   toChecksumAddress defaultLibraries ''0x12'' = Inl (InvalidAddress ''0x12'') \<and>
   isl (fst (persist defaultLibraries (storeWith linked) [event ''0xBB'' ''10'' ''100'', badGateway])) \<and>
   snd (persist defaultLibraries (storeWith linked) [event ''0xBB'' ''10'' ''100'', badGateway]) =
     storeWith linked"
proof -
  have h1: "badGateway \<in> set [event ''0xBB'' ''10'' ''100'', badGateway]" by simp
  have g: "tx_gateway badGateway = ''0x12''" by (simp add: badGateway_def)
  have t: "toChecksumAddress defaultLibraries ''0x12'' = Inl (InvalidAddress ''0x12'')"
    by (simp add: toChecksumAddress_def defaultLibraries_def web3Checksum_def isAddressShape_def
        stripHexPrefix_def)
  from g t have h2:
    "(\<exists>a\<in>{tx_beneficiary badGateway, tx_gateway badGateway, tx_staker badGateway,
            tx_stakerProxy badGateway}. isl (toChecksumAddress defaultLibraries a)) \<or>
     (\<exists>s\<in>{tx_amount badGateway, tx_gasPrice badGateway, tx_gasLimit badGateway,
            tx_nonce badGateway, tx_blockNumber badGateway}.
            isl (BigNumber_new defaultLibraries s))"
    by simp
  from persist_rejects_when_normalization_throws[OF h1 h2, of "storeWith linked"] h1 g t
  show ?thesis by simp
qed

text \<open>
  Claim C3 as stated fails for a numeric field. The amount \<open>abc\<close> is no decimal number;
  the constructor, with the package's default settings, turns it into the value that is
  not a number without throwing, and \<open>persist\<close> succeeds and saves the record.
\<close>

theorem persist_malformed_amount_counterexample:
  "tx_amount (event ''0xAA'' ''abc'' ''100'') = ''abc'' \<and>
   decimalDigits 0 ''abc'' = None \<and>
   fst (persist defaultLibraries emptyStore [event ''0xAA'' ''abc'' ''100'']) =
     Inr [firstSeen ''0xAA'' NaN (Finite 100)] \<and>
   saveLog (snd (persist defaultLibraries emptyStore [event ''0xAA'' ''abc'' ''100''])) =
     [firstSeen ''0xAA'' NaN (Finite 100)] \<and>
   records (snd (persist defaultLibraries emptyStore [event ''0xAA'' ''abc'' ''100''])) ''0xAA'' =
     Some (firstSeen ''0xAA'' NaN (Finite 100))"
proof -
  have r: "resolve defaultLibraries emptyStore (event ''0xAA'' ''abc'' ''100'') =
      Inr (firstSeen ''0xAA'' NaN (Finite 100))"
    by (rule resolve_event_fresh[OF default_numbers(8) default_numbers(6)])
       (simp_all add: emptyStore_def)
  have k: "stakeRequestHash (firstSeen ''0xAA'' NaN (Finite 100)) = ''0xAA''"
    by (simp add: firstSeen_def new_StakeRequest_def)
  have m: "map (resolve defaultLibraries emptyStore) [event ''0xAA'' ''abc'' ''100''] =
      map Inr [firstSeen ''0xAA'' NaN (Finite 100)]"
    by (simp add: r)
  have nf: "\<forall>m\<in>set [firstSeen ''0xAA'' NaN (Finite 100)]. \<not> saveFails emptyStore m"
    by (simp add: emptyStore_def)
  have d: "decimalDigits 0 ''abc'' = None" by (simp add: digitValue_def)
  from persist_ok[OF m nf] k d show ?thesis
    by (simp add: event_fields) (simp add: emptyStore_def)
qed

text \<open>
  Claim C4. Every record that \<open>persist\<close> returns has no message hash, and so has every
  record that the call hands to \<open>save\<close>, in either branch and whether or not the call
  succeeds.
\<close>

theorem persist_messageHash_absent:
  "(\<forall>models. fst (persist lib st txs) = Inr models \<longrightarrow> (\<forall>m\<in>set models. messageHash m = None)) \<and>
   (\<forall>m\<in>set (drop (length (saveLog st)) (saveLog (snd (persist lib st txs)))).
      messageHash m = None)"
proof (cases "resolveAll lib st txs")
  case (Inl e)
  then show ?thesis by (simp add: persist_rejected)
next
  case (Inr ms)
  then have none: "\<forall>m\<in>set ms. messageHash m = None"
    by (auto intro: resolveAll_messageHash)
  from Inr have "saveLog (snd (persist lib st txs)) = saveLog st @ ms" by (rule persist_saveLog)
  with none Inr show ?thesis by (auto simp: persist_Inr_iff)
qed

text \<open>
  An instance with one event in each branch; the stored record did have a message hash.
\<close>

theorem persist_messageHash_absent_witness:
  "messageHash linked = Some ''0xMM'' \<and>
   fst (persist defaultLibraries (storeWith linked) reorgBatch) =
     Inr [rearmed, firstSeen ''0xBB'' (Finite 10) (Finite 100)] \<and>
   messageHash rearmed = None \<and>
   messageHash (firstSeen ''0xBB'' (Finite 10) (Finite 100)) = None \<and>
   saveLog (snd (persist defaultLibraries (storeWith linked) reorgBatch)) =
     [rearmed, firstSeen ''0xBB'' (Finite 10) (Finite 100)]"
  using persist_messageHash_absent[of defaultLibraries "storeWith linked" reorgBatch]
  by (simp add: persist_reorgBatch storeWith_faults) (simp add: linked_def)

text \<open>
  Claim C5. When \<open>persist\<close> succeeds it returns as many records as there are events, and
  the record at position \<open>i\<close> is the one the callback resolves for the event at
  position \<open>i\<close>.
\<close>

theorem persist_one_record_per_event:
  assumes "fst (persist lib st txs) = Inr models"
  shows "length models = length txs \<and>
         (\<forall>i<length txs. resolve lib st (txs ! i) = Inr (models ! i))"
proof -
  from assms have m: "map (resolve lib st) txs = map Inr models"
    by (simp add: persist_Inr_iff resolveAll_Inr_iff)
  then have len: "length models = length txs" by (metis length_map)
  have "resolve lib st (txs ! i) = Inr (models ! i)" if "i < length txs" for i
    using persist_nth[OF assms that] by simp
  with len show ?thesis by simp
qed

text \<open>
  An instance with two events.
\<close>

theorem persist_one_record_per_event_witness:
  "fst (persist defaultLibraries (storeWith linked) reorgBatch) =
     Inr [rearmed, firstSeen ''0xBB'' (Finite 10) (Finite 100)] \<and>
   length [rearmed, firstSeen ''0xBB'' (Finite 10) (Finite 100)] = length reorgBatch \<and>
   resolve defaultLibraries (storeWith linked) (reorgBatch ! 0) = Inr rearmed \<and>
   resolve defaultLibraries (storeWith linked) (reorgBatch ! 1) =
     Inr (firstSeen ''0xBB'' (Finite 10) (Finite 100))"
proof -
  have len: "length reorgBatch = 2" by (simp add: reorgBatch_def)
  from persist_one_record_per_event[OF persist_reorgBatch(1)]
  have "length [rearmed, firstSeen ''0xBB'' (Finite 10) (Finite 100)] = length reorgBatch"
    and all: "\<forall>i<length reorgBatch. resolve defaultLibraries (storeWith linked) (reorgBatch ! i) =
        Inr ([rearmed, firstSeen ''0xBB'' (Finite 10) (Finite 100)] ! i)"
    by simp_all
  from all len have "resolve defaultLibraries (storeWith linked) (reorgBatch ! 0) = Inr rearmed"
    by (metis nth_Cons_0 zero_less_numeral)
  moreover from all len have "resolve defaultLibraries (storeWith linked) (reorgBatch ! 1) =
     Inr (firstSeen ''0xBB'' (Finite 10) (Finite 100))"
    by (metis One_nat_def nth_Cons_0 nth_Cons_Suc one_less_numeral_iff semiring_norm(76))
  ultimately show ?thesis using persist_reorgBatch(1) len by simp
qed

text \<open>
  Claim C6. Let \<open>persist\<close> succeed on a single event whose block number \<open>b'\<close> does not
  exceed that of the record stored under its hash (or for whose hash nothing is stored),
  and let \<open>r1\<close> be the record it returns. Then \<open>r1\<close> is stored under the hash, a
  second call with the same event on the resulting store returns \<open>r1\<close> again, and the
  records of the store are the same after the second call as after the first.
\<close>

theorem persist_idempotent_at_same_height:
  assumes "fst (persist lib st [tx]) = Inr [r1]"
    and "BigNumber_new lib (tx_blockNumber tx) = Inr b'"
    and "records st (tx_stakeRequestHash tx) = None \<or>
         (\<exists>r. records st (tx_stakeRequestHash tx) = Some r \<and> \<not> gt b' (blockNumber r))"
  shows "records (snd (persist lib st [tx])) (tx_stakeRequestHash tx) = Some r1 \<and>
         fst (persist lib (snd (persist lib st [tx])) [tx]) = Inr [r1] \<and>
         records (snd (persist lib (snd (persist lib st [tx])) [tx])) =
           records (snd (persist lib st [tx]))"
proof -
  let ?st1 = "snd (persist lib st [tx])"
  let ?h = "tx_stakeRequestHash tx"
  from persist_nth[OF assms(1), of 0] have res: "resolve lib st tx = Inr r1" by simp
  from assms(1) have nofail: "\<not> saveFails st r1" by (simp add: persist_Inr_iff)
  from res obtain n where n: "normalizeFields lib tx = Inr n"
    and l: "lookupAndDecide st n = Inr r1"
    by (auto simp: resolve_Inr_iff)
  from normalize_fields[OF n] assms(2)
  have h: "n_stakeRequestHash n = ?h" and b: "n_blockNumber n = b'" by simp_all
  from l h have up: "\<not> getFails st ?h" and d: "r1 = decide n (records st ?h)"
    by (simp_all add: lookupAndDecide_Inr_iff)
  from assms(3) b have "records st ?h = None \<or>
      (\<exists>r. records st ?h = Some r \<and> \<not> gt (n_blockNumber n) (blockNumber r))"
    by simp
  then have "decide n (records st ?h) = fresh n" by (rule decide_fresh)
  with d have r1: "r1 = fresh n" by simp
  with h have key: "stakeRequestHash r1 = ?h" by (simp add: fresh_def new_StakeRequest_def)
  from persist_single_store[OF res] nofail key
  have rec1: "records ?st1 = (records st)(?h \<mapsto> r1)"
    and g1: "getFails ?st1 = getFails st" and s1: "saveFails ?st1 = saveFails st"
    by simp_all
  from rec1 have stored: "records ?st1 ?h = Some r1" by simp
  from r1 have "blockNumber r1 = Some (n_blockNumber n)"
    by (simp add: fresh_def new_StakeRequest_def)
  then have "\<not> gt (n_blockNumber n) (blockNumber r1)" by (simp add: gt_irrefl)
  with stored have "decide n (records ?st1 ?h) = fresh n" by (simp add: decide_fresh)
  with up g1 h r1 have "lookupAndDecide ?st1 n = Inr r1"
    by (simp add: lookupAndDecide_Inr_iff)
  with n have res2: "resolve lib ?st1 tx = Inr r1" by (auto simp: resolve_Inr_iff)
  from nofail s1 have nofail2: "\<not> saveFails ?st1 r1" by simp
  from res2 nofail2 have again: "fst (persist lib ?st1 [tx]) = Inr [r1]"
    by (simp add: persist_Inr_iff resolveAll_Inr_iff)
  from persist_single_store(1)[OF res2] nofail2 key stored
  have "records (snd (persist lib ?st1 [tx])) = records ?st1"
    by (simp add: fun_upd_idem)
  with stored again show ?thesis by simp
qed

text \<open>
  An instance: an event at height 100 for a record stored at height 100.
\<close>

theorem persist_idempotent_at_same_height_witness:
  "fst (persist defaultLibraries (storeWith linked) [event ''0xAA'' ''99'' ''100'']) =
     Inr [firstSeen ''0xAA'' (Finite 99) (Finite 100)] \<and>
   records (storeWith linked) ''0xAA'' = Some linked \<and>
   blockNumber linked = Some (Finite 100) \<and>
   \<not> gt (Finite 100) (Some (Finite 100)) \<and>
   fst (persist defaultLibraries
         (snd (persist defaultLibraries (storeWith linked) [event ''0xAA'' ''99'' ''100'']))
         [event ''0xAA'' ''99'' ''100'']) =
     Inr [firstSeen ''0xAA'' (Finite 99) (Finite 100)] \<and>
   records (snd (persist defaultLibraries
         (snd (persist defaultLibraries (storeWith linked) [event ''0xAA'' ''99'' ''100'']))
         [event ''0xAA'' ''99'' ''100''])) ''0xAA'' =
     Some (firstSeen ''0xAA'' (Finite 99) (Finite 100))"
proof -
  let ?tx = "event ''0xAA'' ''99'' ''100''"
  have h2: "BigNumber_new defaultLibraries (tx_blockNumber ?tx) = Inr (Finite 100)"
    by (simp add: default_new event_fields default_numbers)
  have st: "records (storeWith linked) ''0xAA'' = Some linked"
    by (simp add: storeWith_faults linked_def)
  have bn: "blockNumber linked = Some (Finite 100)" by (simp add: linked_def)
  have ng: "\<not> gt (Finite 100) (Some (Finite 100))" by (simp add: gt_def)
  from st bn ng have h3: "records (storeWith linked) (tx_stakeRequestHash ?tx) = None \<or>
         (\<exists>r. records (storeWith linked) (tx_stakeRequestHash ?tx) = Some r \<and>
              \<not> gt (Finite 100) (blockNumber r))"
    by (simp add: event_fields)
  from persist_idempotent_at_same_height[OF persist_same_height h2 h3] persist_same_height st bn ng
  show ?thesis by (simp add: event_fields)
qed

text \<open>
  Claim C7. When every event of the batch resolves, the calls of \<open>save\<close> made by
  \<open>persist\<close> are exactly the resolved records, each once and in order, those of the
  first branch included. When \<open>persist\<close> returns, it returns these records, none of the
  saves has failed, and the store holds the effect of all of them.
\<close>

theorem persist_saves_every_model_once:
  assumes "resolveAll lib st txs = Inr models"
  shows "saveLog (snd (persist lib st txs)) = saveLog st @ models \<and>
         (\<forall>returned. fst (persist lib st txs) = Inr returned \<longrightarrow>
            returned = models \<and>
            (\<forall>m\<in>set models. \<not> saveFails st m) \<and>
            records (snd (persist lib st txs)) =
              foldl (\<lambda>f m. f(stakeRequestHash m \<mapsto> m)) (records st) models)"
proof -
  from assms have log: "saveLog (snd (persist lib st txs)) = saveLog st @ models"
    by (rule persist_saveLog)
  have "returned = models \<and> (\<forall>m\<in>set models. \<not> saveFails st m) \<and>
        records (snd (persist lib st txs)) =
          foldl (\<lambda>f m. f(stakeRequestHash m \<mapsto> m)) (records st) models"
    if "fst (persist lib st txs) = Inr returned" for returned
  proof -
    from that assms have eq: "returned = models" and ok: "\<forall>m\<in>set models. \<not> saveFails st m"
      by (simp_all add: persist_Inr_iff)
    from assms ok have "records (snd (persist lib st txs)) =
        foldl (\<lambda>f m. f(stakeRequestHash m \<mapsto> m)) (records st) models"
      by (simp add: persist_store saveAll_records_ok)
    with eq ok show ?thesis by simp
  qed
  with log show ?thesis by blast
qed

text \<open>
  An instance with one event in each branch.
\<close>

theorem persist_saves_every_model_once_witness:
  "resolveAll defaultLibraries (storeWith linked) reorgBatch =
     Inr [rearmed, firstSeen ''0xBB'' (Finite 10) (Finite 100)] \<and>
   saveLog (storeWith linked) = [] \<and>
   saveLog (snd (persist defaultLibraries (storeWith linked) reorgBatch)) =
     [rearmed, firstSeen ''0xBB'' (Finite 10) (Finite 100)] \<and>
   fst (persist defaultLibraries (storeWith linked) reorgBatch) =
     Inr [rearmed, firstSeen ''0xBB'' (Finite 10) (Finite 100)] \<and>
   records (snd (persist defaultLibraries (storeWith linked) reorgBatch)) =
     foldl (\<lambda>f m. f(stakeRequestHash m \<mapsto> m)) (records (storeWith linked))
       [rearmed, firstSeen ''0xBB'' (Finite 10) (Finite 100)]"
proof -
  have r: "resolveAll defaultLibraries (storeWith linked) reorgBatch =
     Inr [rearmed, firstSeen ''0xBB'' (Finite 10) (Finite 100)]"
    by (simp only: resolveAll_Inr_iff resolve_reorgBatch)
  from persist_saves_every_model_once[OF r] r persist_reorgBatch(1)
  show ?thesis by (simp add: storeWith_faults)
qed

text \<open>
  Claim C8. If the lookup fails for the hash of some event of the batch, or the save fails
  for some resolved record, then \<open>persist\<close> rejects.
\<close>

theorem persist_propagates_store_failures:
  assumes "(\<exists>tx\<in>set txs. getFails st (tx_stakeRequestHash tx)) \<or>
           (\<exists>models. resolveAll lib st txs = Inr models \<and> (\<exists>m\<in>set models. saveFails st m))"
  shows "isl (fst (persist lib st txs))"
  using assms
proof
  assume "\<exists>tx\<in>set txs. getFails st (tx_stakeRequestHash tx)"
  then obtain tx where tx: "tx \<in> set txs" and f: "getFails st (tx_stakeRequestHash tx)"
    by blast
  have "isl (resolve lib st tx)"
  proof (cases "normalizeFields lib tx")
    case (Inl e)
    then show ?thesis by (simp add: resolve_isl_iff)
  next
    case (Inr n)
    with normalize_fields[OF Inr] f show ?thesis by (simp add: resolve_isl_iff)
  qed
  with tx have "isl (resolveAll lib st txs)" by (auto simp: resolveAll_isl_iff)
  then obtain e where "resolveAll lib st txs = Inl e" by (cases "resolveAll lib st txs") simp_all
  then show ?thesis by (simp add: persist_rejected)
next
  assume "\<exists>models. resolveAll lib st txs = Inr models \<and> (\<exists>m\<in>set models. saveFails st m)"
  then obtain models where r: "resolveAll lib st txs = Inr models"
    and f: "\<exists>m\<in>set models. saveFails st m"
    by blast
  from f have "isl (fst (saveAll st models))" by (simp add: saveAll_isl_iff)
  with r show ?thesis by (cases "fst (saveAll st models)") (simp_all add: persist_result)
qed

text \<open>
  An instance: a store whose lookup fails for the hash of the second event.
\<close>

theorem persist_propagates_store_failures_witness:
  "event ''0xBB'' ''10'' ''100'' \<in> set reorgBatch \<and>
   getFails readFailure (tx_stakeRequestHash (event ''0xBB'' ''10'' ''100'')) \<and>
   isl (fst (persist defaultLibraries readFailure reorgBatch))"
proof -
  have m: "event ''0xBB'' ''10'' ''100'' \<in> set reorgBatch" by (simp add: reorgBatch_def)
  have f: "getFails readFailure (tx_stakeRequestHash (event ''0xBB'' ''10'' ''100''))"
    by (simp add: readFailure_def emptyStore_def event_fields)
  from m f have h: "(\<exists>tx\<in>set reorgBatch. getFails readFailure (tx_stakeRequestHash tx)) \<or>
      (\<exists>models. resolveAll defaultLibraries readFailure reorgBatch = Inr models \<and>
         (\<exists>m\<in>set models. saveFails readFailure m))"
    by blast
  from persist_propagates_store_failures[OF h] m f show ?thesis by simp
qed

text \<open>
  Claim C9. On the empty batch \<open>persist\<close> succeeds with the empty list and leaves the
  store as it was: the same records, and no call of \<open>save\<close>.
\<close>

theorem persist_empty_batch: "persist lib st [] = (Inr [], st)"
  by (simp add: persist_def resolveAll_def andThen_def)

text \<open>
  An instance on a store that holds one record.
\<close>

theorem persist_empty_batch_witness:
  "persist defaultLibraries (storeWith linked) [] = (Inr [], storeWith linked)"
  by (rule persist_empty_batch)

text \<open>
  Claim C10. Suppose every record that the lookup returns has a block number. Then for an
  event whose fields normalize and for whose hash the lookup returns a record \<open>r\<close>,
  the operand of the non-null assertion at line 68 is a present value \<open>b\<close>; the test
  of line 68 is the comparison of the event's block number with \<open>b\<close>, and the callback
  returns what that comparison selects. The case of an absent operand does not arise.
\<close>

theorem stored_blockNumber_present:
  assumes "\<forall>h r. repo_get st h = Inr (Some r) \<longrightarrow> blockNumber r \<noteq> None"
    and "normalizeFields lib tx = Inr n"
    and "repo_get st (n_stakeRequestHash n) = Inr (Some r)"
  shows "\<exists>b. blockNumber r = Some b \<and>
             gt (n_blockNumber n) (blockNumber r) =
               (case comparedTo (n_blockNumber n) b of None \<Rightarrow> False | Some c \<Rightarrow> 0 < c) \<and>
             resolve lib st tx =
               Inr (if (case comparedTo (n_blockNumber n) b of None \<Rightarrow> False | Some c \<Rightarrow> 0 < c)
                    then r\<lparr>blockNumber := Some (n_blockNumber n), messageHash := None\<rparr>
                    else fresh n)"
proof -
  from assms(1,3) obtain b where b: "blockNumber r = Some b" by blast
  have g: "gt (n_blockNumber n) (blockNumber r) =
      (case comparedTo (n_blockNumber n) b of None \<Rightarrow> False | Some c \<Rightarrow> 0 < c)"
    by (simp add: b gt_present)
  from assms(2,3) have "resolve lib st tx = Inr (decide n (Some r))"
    by (simp add: resolve_def andThen_def lookupAndDecide_def)
  then have "resolve lib st tx =
      Inr (if (case comparedTo (n_blockNumber n) b of None \<Rightarrow> False | Some c \<Rightarrow> 0 < c)
           then r\<lparr>blockNumber := Some (n_blockNumber n), messageHash := None\<rparr>
           else fresh n)"
    by (simp add: decide_def g)
  with b g show ?thesis by blast
qed

text \<open>
  An instance: the stored record has height 100 and the event height 105.
\<close>

theorem stored_blockNumber_present_witness:
  "\<not> (\<exists>h r. repo_get (storeWith linked) h = Inr (Some r) \<and> blockNumber r = None) \<and>
   repo_get (storeWith linked) ''0xAA'' = Inr (Some linked) \<and>
   blockNumber linked = Some (Finite 100) \<and>
   comparedTo (Finite 105) (Finite 100) = Some 1 \<and>
   resolve defaultLibraries (storeWith linked) (event ''0xAA'' ''99'' ''105'') =
     Inr (linked\<lparr>blockNumber := Some (Finite 105), messageHash := None\<rparr>)"
proof -
  let ?n = "\<lparr> n_stakeRequestHash = ''0xAA'', n_amount = Finite 99, n_beneficiary = addrA,
             n_gasPrice = Finite 2, n_gasLimit = Finite 3, n_nonce = Finite 4,
             n_gateway = addrB, n_staker = addrC, n_stakerProxy = addrD,
             n_blockNumber = Finite 105 \<rparr>"
  have bn: "blockNumber linked = Some (Finite 100)" by (simp add: linked_def)
  have h1: "\<forall>h r. repo_get (storeWith linked) h = Inr (Some r) \<longrightarrow> blockNumber r \<noteq> None"
    by (auto simp: repo_get_def storeWith_faults bn split: if_splits)
  have h2: "normalizeFields defaultLibraries (event ''0xAA'' ''99'' ''105'') = Inr ?n"
    by (rule normalize_event[OF default_numbers(5) default_numbers(7)])
  have g: "repo_get (storeWith linked) ''0xAA'' = Inr (Some linked)"
    by (simp add: repo_get_def storeWith_faults linked_def)
  then have h3: "repo_get (storeWith linked) (n_stakeRequestHash ?n) = Inr (Some linked)"
    by simp
  have c: "comparedTo (Finite 105) (Finite 100) = Some 1" by simp
  from stored_blockNumber_present[OF h1 h2 h3] bn c h1 g show ?thesis by simp
qed

end
